theory Spec2Isabelle
  imports Main "HOL-Library.AList"
begin

section \<open>Data model\<close>

text \<open>
  Values that travel as JSON: the decoded HTTP bodies, the inbound websocket events and
  the outbound commands. A Python \<^verbatim>\<open>dict\<close> is an association list in insertion order;
  \<^verbatim>\<open>d[k] = v\<close> is \<open>AList.update k v d\<close> (an existing key keeps its place, a new key goes
  to the end). Floats are left out.

  Dict objects are shared: \<^verbatim>\<open>send_action\<close> writes into the caller's own dict and queues that
  very object. So the dicts live in a store, a reference is the index of a dict in the
  store, and the queue holds references.
\<close>

datatype json =
    JNull
  | JBool bool
  | JInt int
  | JStr string
  | JList "json list"
  | JObj "(string \<times> json) list"

type_synonym dict = "(string \<times> json) list"

text \<open>The exceptions the code can meet, as values.\<close>

datatype error =
    KeyError string
  | TypeError
  | UnboundLocalError
  | AttributeError
  | ClientError

text \<open>Python's \<^verbatim>\<open>obj[key]\<close> with a string key.\<close>

fun getitem :: "json \<Rightarrow> string \<Rightarrow> error + json" where
  "getitem (JObj kvs) k = (case map_of kvs k of None \<Rightarrow> Inl (KeyError k) | Some v \<Rightarrow> Inr v)"
| "getitem _ k = Inl TypeError"

text \<open>
  \<^verbatim>\<open>threading.Timer(interval, function)\<close> objects live in a pool; a field of the session
  that holds a timer holds its index in the pool. A started timer runs its function once
  when its deadline is reached, unless it was cancelled before.
\<close>

datatype callback = CbRefreshToken | CbSendPing | CbDispatchConnectionLost

record timer =
  deadline :: int
  callback :: callback
  cancelled :: bool
  finished :: bool

text \<open>
  What the session does to the outside world, in the order it happens: the calls of the
  observers' \<^verbatim>\<open>data_receive\<close> and \<^verbatim>\<open>lost_connection\<close> (which are taken not to raise), the
  frames sent on and the closing of the socket, the two debug lines that serialize a frame
  (\<^verbatim>\<open>"Receive Json : %s"\<close> and \<^verbatim>\<open>"Send Json : %s"\<close>), the error lines, the refresh request
  and the tasks created. The log lines with a constant text are left out.
\<close>

datatype effect =
    DataReceive nat json
  | LostConnection nat
  | WsSend dict
  | WsClose
  | LogDebug string
  | LogError
  | HttpRefresh
  | CreateTaskUpdateStateDevice
  | CreateTaskConnectWss bool

text \<open>
  The fields of class \<^verbatim>\<open>CieloHome\<close> the session core uses (the leading underscores
  dropped; \<^verbatim>\<open>_refresh_token\<close> is \<open>refresh_token_field\<close>, the method keeps the name
  \<open>refresh_token\<close>), followed by the environment: the store of dict objects, the clock
  (Unix time in seconds), what the host's local time was ahead of UTC at the epoch, in
  seconds, the
  pool of timer objects, whether the logger is enabled for DEBUG, and the trace of
  effects. Observers are identified by a number.
  \<open>websocket_closed = None\<close> means the attribute \<^verbatim>\<open>_websocket\<close> was never assigned, and
  \<open>last_refresh_token_ts = None\<close> that \<^verbatim>\<open>_last_refresh_token_ts\<close> was never assigned.
\<close>

record cielo_home =
  is_running :: bool
  stop_running :: bool
  access_token :: json
  refresh_token_field :: json
  session_id :: json
  user_id :: json
  user_name :: string
  password :: string
  websocket_closed :: "bool option"
  event_listener :: "nat list"
  msg_to_send :: "nat list"
  timer_refresh :: "nat option"
  timer_ping :: "nat option"
  timer_connection_lost :: "nat option"
  last_refresh_token_ts :: "int option"
  last_ts_msg :: int
  dicts :: "dict list"
  clock :: int
  utc_offset :: int
  pool :: "timer list"
  debug_enabled :: bool
  trace :: "effect list"

definition init :: cielo_home where
  "init = \<lparr> is_running = True, stop_running = False,
            access_token = JStr [], refresh_token_field = JStr [], session_id = JStr [],
            user_id = JStr [], user_name = [], password = [],
            websocket_closed = None, event_listener = [], msg_to_send = [],
            timer_refresh = None, timer_ping = None, timer_connection_lost = None,
            last_refresh_token_ts = None, last_ts_msg = 0,
            dicts = [], clock = 0, utc_offset = 0, pool = [], debug_enabled = False, trace = [] \<rparr>"

section \<open>Operations\<close>

definition emit :: "effect \<Rightarrow> cielo_home \<Rightarrow> cielo_home" where
  "emit e s = s\<lparr>trace := trace s @ [e]\<rparr>"

definition close :: "cielo_home \<Rightarrow> cielo_home" where
  "close s = s\<lparr>stop_running := True, is_running := False\<rparr>"

definition add_listener :: "nat \<Rightarrow> cielo_home \<Rightarrow> cielo_home" where
  "add_listener listener s = s\<lparr>event_listener := event_listener s @ [listener]\<rparr>"

text \<open>
  \<^verbatim>\<open>get_ts\<close> is \<^verbatim>\<open>int((datetime.utcnow() - datetime.fromtimestamp(0)).total_seconds())\<close>:
  the UTC wall time less the local wall time of the epoch, that is, Unix time less what
  the local time was ahead of UTC at the epoch. It is Unix time on a host whose local time
  is UTC.
\<close>

definition get_ts :: "cielo_home \<Rightarrow> int" where
  "get_ts s = clock s - utc_offset s"

text \<open>
  A caller builds a dict: a new object in the store, and its reference. \<open>deref\<close> reads the
  object behind a reference (every reference that \<open>new_dict\<close> hands out is in the store),
  \<open>setitem\<close> is \<^verbatim>\<open>obj[k] = v\<close> on it.
\<close>

definition new_dict :: "dict \<Rightarrow> cielo_home \<Rightarrow> nat \<times> cielo_home" where
  "new_dict d s = (length (dicts s), s\<lparr>dicts := dicts s @ [d]\<rparr>)"

definition deref :: "cielo_home \<Rightarrow> nat \<Rightarrow> dict" where
  "deref s r = (if r < length (dicts s) then dicts s ! r else [])"

definition setitem :: "nat \<Rightarrow> string \<Rightarrow> json \<Rightarrow> cielo_home \<Rightarrow> cielo_home" where
  "setitem r k v s = s\<lparr>dicts := (dicts s)[r := AList.update k v (deref s r)]\<rparr>"

definition send_json :: "nat \<Rightarrow> cielo_home \<Rightarrow> cielo_home" where
  "send_json data s = s\<lparr>msg_to_send := msg_to_send s @ [data]\<rparr>"

text \<open>
  \<^verbatim>\<open>send_action\<close> stamps the caller's dict, in place, and queues it. \<open>stamp_ts\<close> is the value
  written to \<^verbatim>\<open>msg["ts"]\<close>.
\<close>

definition stamp_ts :: "cielo_home \<Rightarrow> int" where
  "stamp_ts s = (if get_ts s = last_ts_msg s then get_ts s + 1 else get_ts s)"

definition send_action :: "nat \<Rightarrow> cielo_home \<Rightarrow> cielo_home" where
  "send_action msg s =
     (let s1 = setitem msg ''token'' (access_token s) s;
          s2 = setitem msg ''mid'' (session_id s1) s1;
          ts = stamp_ts s2;
          s3 = setitem msg ''ts'' (JInt ts) s2
      in send_json msg (s3\<lparr>last_ts_msg := ts\<rparr>))"

text \<open>The \<open>ts\<close> fields of the queued frames, in queue order.\<close>

definition queued_ts :: "cielo_home \<Rightarrow> json option list" where
  "queued_ts s = map (\<lambda>r. map_of (deref s r) ''ts'') (msg_to_send s)"

subsection \<open>Serialization for the log\<close>

text \<open>
  \<^verbatim>\<open>json.dumps\<close> with its defaults (separators \<^verbatim>\<open>", "\<close> and \<^verbatim>\<open>": "\<close>, \<^verbatim>\<open>ensure_ascii\<close>):
  inside a string, the quote, the backslash and the short escapes are written with a
  backslash, a character from the space to the tilde is written as it is, and any other
  one as \<^verbatim>\<open>\u00XX\<close>. A \<open>char\<close> stands for the code point of the same number.
\<close>

definition hexdigit :: "nat \<Rightarrow> char" where
  "hexdigit n = ''0123456789abcdef'' ! (n mod 16)"

definition escape_char :: "char \<Rightarrow> string" where
  "escape_char c =
     (if c = CHR 0x22 then [CHR 0x5C, CHR 0x22]
      else if c = CHR 0x5C then [CHR 0x5C, CHR 0x5C]
      else if c = CHR 0x0A then [CHR 0x5C, CHR ''n'']
      else if c = CHR 0x0D then [CHR 0x5C, CHR ''r'']
      else if c = CHR 0x09 then [CHR 0x5C, CHR ''t'']
      else if c = CHR 0x08 then [CHR 0x5C, CHR ''b'']
      else if c = CHR 0x0C then [CHR 0x5C, CHR ''f'']
      else if 0x20 \<le> (of_char c :: nat) \<and> (of_char c :: nat) \<le> 0x7E then [c]
      else [CHR 0x5C, CHR ''u'', CHR ''0'', CHR ''0'',
            hexdigit (of_char c div 16), hexdigit (of_char c mod 16)])"

definition quote :: "string \<Rightarrow> string" where
  "quote s = [CHR 0x22] @ concat (map escape_char s) @ [CHR 0x22]"

fun show_nat :: "nat \<Rightarrow> string" where
  "show_nat n =
     (if n < 10 then [''0123456789'' ! n]
      else show_nat (n div 10) @ [''0123456789'' ! (n mod 10)])"

definition show_int :: "int \<Rightarrow> string" where
  "show_int i = (if i < 0 then CHR ''-'' # show_nat (nat (- i)) else show_nat (nat i))"

fun join :: "string \<Rightarrow> string list \<Rightarrow> string" where
  "join sep [] = []"
| "join sep [x] = x"
| "join sep (x # y # ys) = x @ sep @ join sep (y # ys)"

fun dumps :: "json \<Rightarrow> string" where
  "dumps JNull = ''null''"
| "dumps (JBool b) = (if b then ''true'' else ''false'')"
| "dumps (JInt i) = show_int i"
| "dumps (JStr s) = quote s"
| "dumps (JList xs) = ''['' @ join '', '' (map dumps xs) @ '']''"
| "dumps (JObj kvs) =
     ''{'' @ join '', '' (map (\<lambda>(k, v). quote k @ '': '' @ dumps v) kvs) @ ''}''"

text \<open>Whether the text \<open>ys\<close> contains \<open>xs\<close> as a run of consecutive characters.\<close>

fun contains :: "string \<Rightarrow> string \<Rightarrow> bool" where
  "contains [] xs = (xs = [])"
| "contains (y # ys) xs = (take (length xs) (y # ys) = xs \<or> contains ys xs)"

subsection \<open>Timers\<close>

text \<open>\<^verbatim>\<open>Timer(interval, function)\<close> followed by \<^verbatim>\<open>start()\<close>: the new timer's index and the state.\<close>

definition new_timer :: "int \<Rightarrow> callback \<Rightarrow> cielo_home \<Rightarrow> nat \<times> cielo_home" where
  "new_timer interval cb s =
     (length (pool s),
      s\<lparr>pool := pool s @ [\<lparr>deadline = clock s + interval, callback = cb,
                             cancelled = False, finished = False\<rparr>]\<rparr>)"

definition cancel_timer :: "nat \<Rightarrow> cielo_home \<Rightarrow> cielo_home" where
  "cancel_timer i s =
     (if i < length (pool s) then s\<lparr>pool := (pool s)[i := (pool s ! i)\<lparr>cancelled := True\<rparr>]\<rparr>
      else s)"

definition start_timer_refreshtoken :: "cielo_home \<Rightarrow> cielo_home" where
  "start_timer_refreshtoken s =
     (case new_timer 60 CbRefreshToken s of (i, s1) \<Rightarrow> s1\<lparr>timer_refresh := Some i\<rparr>)"

definition start_timer_ping :: "cielo_home \<Rightarrow> cielo_home" where
  "start_timer_ping s =
     (case new_timer 588 CbSendPing s of (i, s1) \<Rightarrow> s1\<lparr>timer_ping := Some i\<rparr>)"

definition start_timer_connection_lost :: "cielo_home \<Rightarrow> cielo_home" where
  "start_timer_connection_lost s =
     (case new_timer 10 CbDispatchConnectionLost s of
        (i, s1) \<Rightarrow> s1\<lparr>timer_connection_lost := Some i\<rparr>)"

definition stop_timer_connection_lost :: "cielo_home \<Rightarrow> cielo_home" where
  "stop_timer_connection_lost s =
     (case timer_connection_lost s of None \<Rightarrow> s | Some i \<Rightarrow> cancel_timer i s)"

definition dispatch_connection_lost :: "cielo_home \<Rightarrow> cielo_home" where
  "dispatch_connection_lost s =
     foldl (\<lambda>s1 listener. emit (LostConnection listener) s1) s (event_listener s)"

definition send_ping :: "cielo_home \<Rightarrow> cielo_home" where
  "send_ping s =
     (case new_dict [(''message'', JStr ''Ping Connection Reset''), (''token'', access_token s)] s of
        (data, s1) \<Rightarrow> send_json data (start_timer_ping s1))"

subsection \<open>Login and token refresh\<close>

text \<open>
  What an HTTP request of the session comes back with: the request raises, or a response
  with its status and its body decoded as JSON (\<open>None\<close>: the body does not decode, and
  \<^verbatim>\<open>response.json()\<close> raises).
\<close>

datatype http_result = HttpRaises | HttpResponse int "json option"

text \<open>The test \<^verbatim>\<open>repjson["status"] == 200 and repjson["message"] == "SUCCESS"\<close>.\<close>

definition is_success :: "json \<Rightarrow> error + bool" where
  "is_success repjson =
     (case getitem repjson ''status'' of
        Inl e \<Rightarrow> Inl e
      | Inr st \<Rightarrow>
          if st = JInt 200 then
            (case getitem repjson ''message'' of
               Inl e \<Rightarrow> Inl e
             | Inr m \<Rightarrow> Inr (m = JStr ''SUCCESS''))
          else Inr False)"

fun getpath :: "json \<Rightarrow> string list \<Rightarrow> error + json" where
  "getpath j [] = Inr j"
| "getpath j (k # ks) = (case getitem j k of Inl e \<Rightarrow> Inl e | Inr v \<Rightarrow> getpath v ks)"

text \<open>
  The assignments of \<^verbatim>\<open>async_refresh_token\<close> after a successful answer, in the source's
  order; a missing key raises after the assignments before it.
\<close>

definition store_refresh :: "json \<Rightarrow> cielo_home \<Rightarrow> error option \<times> cielo_home" where
  "store_refresh repjson s =
     (case getpath repjson [''data'', ''accessToken''] of
        Inl e \<Rightarrow> (Some e, s)
      | Inr a \<Rightarrow>
          let s1 = s\<lparr>access_token := a\<rparr> in
          (case getpath repjson [''data'', ''refreshToken''] of
             Inl e \<Rightarrow> (Some e, s1)
           | Inr r \<Rightarrow>
               let s2 = s1\<lparr>refresh_token_field := r\<rparr> in
               (None, s2\<lparr>last_refresh_token_ts := Some (get_ts s2)\<rparr>)))"

definition async_refresh_token :: "http_result \<Rightarrow> cielo_home \<Rightarrow> error option \<times> cielo_home" where
  "async_refresh_token http s =
     (case refresh_token_field s of
        JStr rt \<Rightarrow>
          let s1 = emit HttpRefresh s in
          (case http of
             HttpRaises \<Rightarrow> (Some ClientError, s1)
           | HttpResponse status body \<Rightarrow>
               if status = 200 then
                 (case body of
                    None \<Rightarrow> (Some ClientError, s1)
                  | Some repjson \<Rightarrow>
                      (case is_success repjson of
                         Inl e \<Rightarrow> (Some e, s1)
                       | Inr ok \<Rightarrow> if ok then store_refresh repjson s1 else (None, s1)))
               else (None, s1))
      | _ \<Rightarrow> (Some TypeError, s))"

text \<open>The timer function of the refresh timer.\<close>

definition refresh_token :: "http_result \<Rightarrow> cielo_home \<Rightarrow> error option \<times> cielo_home" where
  "refresh_token http s =
     (let s1 = start_timer_refreshtoken s in
      case last_refresh_token_ts s1 of
        None \<Rightarrow> (Some AttributeError, s1)
      | Some l \<Rightarrow>
          if get_ts s1 - l > 1200 then async_refresh_token http s1 else (None, s1))"

text \<open>
  \<^verbatim>\<open>async_auth\<close> from the login request on (the discovery of the API key before it only
  sets \<^verbatim>\<open>_x_api_key\<close> and the headers, which are not modelled).
\<close>

definition store_login :: "json \<Rightarrow> string \<Rightarrow> string \<Rightarrow> cielo_home \<Rightarrow> error option \<times> cielo_home" where
  "store_login repjson user pw s =
     (case getpath repjson [''data'', ''user'', ''accessToken''] of
        Inl e \<Rightarrow> (Some e, s)
      | Inr a \<Rightarrow>
          let s1 = s\<lparr>access_token := a\<rparr> in
          (case getpath repjson [''data'', ''user'', ''refreshToken''] of
             Inl e \<Rightarrow> (Some e, s1)
           | Inr r \<Rightarrow>
               let s2 = s1\<lparr>refresh_token_field := r\<rparr> in
               (case getpath repjson [''data'', ''user'', ''sessionId''] of
                  Inl e \<Rightarrow> (Some e, s2)
                | Inr sid \<Rightarrow>
                    let s3 = s2\<lparr>session_id := sid\<rparr> in
                    (case getpath repjson [''data'', ''user'', ''userId''] of
                       Inl e \<Rightarrow> (Some e, s3)
                     | Inr uid \<Rightarrow>
                         (None, s3\<lparr>user_id := uid, user_name := user, password := pw\<rparr>)))))"

definition async_auth ::
    "string \<Rightarrow> string \<Rightarrow> bool \<Rightarrow> http_result \<Rightarrow> cielo_home \<Rightarrow> (error + bool) \<times> cielo_home" where
  "async_auth user pw connect_ws http s =
     (case http of
        HttpRaises \<Rightarrow> (Inl ClientError, s)
      | HttpResponse status body \<Rightarrow>
          if status = 200 then
            (case body of
               None \<Rightarrow> (Inl ClientError, s)
             | Some repjson \<Rightarrow>
                 (case is_success repjson of
                    Inl e \<Rightarrow> (Inl e, s)
                  | Inr ok \<Rightarrow>
                      (case (if ok then store_login repjson user pw s else (None, s)) of
                         (Some e, s1) \<Rightarrow> (Inl e, s1)
                       | (None, s1) \<Rightarrow>
                           let s2 = (if connect_ws \<and> access_token s1 \<noteq> JStr []
                                     then emit (CreateTaskConnectWss False) s1 else s1);
                               s3 = s2\<lparr>last_refresh_token_ts := Some (get_ts s2)\<rparr>;
                               s4 = start_timer_refreshtoken s3
                           in (Inr (access_token s4 \<noteq> JStr []), s4))))
          else (Inr False, s))"

subsection \<open>The connection\<close>

text \<open>
  One frame as \<^verbatim>\<open>receive(timeout=0.1)\<close> hands it over, its data standing for what
  \<^verbatim>\<open>json.loads\<close> makes of it: \<open>Malformed\<close> raises \<^verbatim>\<open>ValueError\<close>, \<open>Unloadable\<close> (data that
  is no text) raises \<^verbatim>\<open>TypeError\<close>, \<open>Loads j\<close> returns \<open>j\<close>.
\<close>

datatype payload = Malformed | Unloadable | Loads json

datatype received =
    RecvTimeout
  | RecvCancelled
  | RecvRaises
  | RecvClose
  | RecvData payload

text \<open>
  What one pass of the loop meets: the frame, and for each \<^verbatim>\<open>send_json\<close> on the socket
  in turn whether it goes through (\<open>False\<close>: it raises; past the end of the list every
  send goes through).
\<close>

record iteration =
  frame :: received
  sends :: "bool list"

datatype flow = Next | Break | Raised error

text \<open>
  The inner \<^verbatim>\<open>try\<close> around \<^verbatim>\<open>json.loads\<close> and the debug line. \<open>js_data\<close> is the local
  variable of the coroutine, \<open>None\<close> while it is unbound.
\<close>

definition load_frame ::
    "payload \<Rightarrow> json option \<Rightarrow> cielo_home \<Rightarrow> error option \<times> json option \<times> cielo_home" where
  "load_frame p js_data s =
     (case p of
        Malformed \<Rightarrow> (None, js_data, s)
      | Unloadable \<Rightarrow> (Some TypeError, js_data, s)
      | Loads j \<Rightarrow>
          if debug_enabled s then
            (case j of
               JObj kvs \<Rightarrow>
                 let debug_data = AList.update ''refreshToken'' (JStr ''*****'')
                                    (AList.update ''accessToken'' (JStr ''*****'') kvs)
                 in (None, Some j,
                     emit (LogDebug (''Receive Json : '' @ dumps (JObj debug_data))) s)
             | _ \<Rightarrow> (Some TypeError, Some j, s))
          else (None, Some j, s))"

definition dispatch :: "json \<Rightarrow> cielo_home \<Rightarrow> cielo_home" where
  "dispatch js_data s =
     foldl (\<lambda>s1 listener. emit (DataReceive listener js_data) s1) s (event_listener s)"

definition receive_part ::
    "received \<Rightarrow> json option \<Rightarrow> cielo_home \<Rightarrow> flow \<times> json option \<times> cielo_home" where
  "receive_part r js_data s =
     (case r of
        RecvTimeout \<Rightarrow> (Next, js_data, s)
      | RecvCancelled \<Rightarrow> (Next, js_data, s)
      | RecvRaises \<Rightarrow> (Raised ClientError, js_data, s)
      | RecvClose \<Rightarrow> (Break, js_data, s)
      | RecvData p \<Rightarrow>
          (case load_frame p js_data s of
             (Some e, js1, s1) \<Rightarrow> (Raised e, js1, s1)
           | (None, js1, s1) \<Rightarrow>
               (case js1 of
                  None \<Rightarrow> (Raised UnboundLocalError, js1, s1)
                | Some j \<Rightarrow>
                    (case getitem j ''message_type'' of
                       Inl e \<Rightarrow> (Raised e, js1, s1)
                     | Inr ty \<Rightarrow>
                         if ty = JStr ''StateUpdate'' then (Next, js1, dispatch j s1)
                         else (Next, js1, s1)))))"

text \<open>
  The send pass: the \<^verbatim>\<open>while len(self._msg_to_send) > 0\<close> loop inside its \<^verbatim>\<open>try\<close>, with
  the \<^verbatim>\<open>except\<close> branch that puts the item in flight back at the front. What is sent
  is the dict as it is when it is sent. A pass is one step: nothing is queued while it
  runs, and the lock it holds is not modelled.
\<close>

definition log_send :: "dict \<Rightarrow> cielo_home \<Rightarrow> cielo_home" where
  "log_send msg s =
     (if debug_enabled s then
        emit (LogDebug (''Send Json : '' @ dumps (JObj (AList.update ''token'' (JStr ''*****'') msg)))) s
      else s)"

function drain :: "bool list \<Rightarrow> cielo_home \<Rightarrow> cielo_home" where
  "drain oks s =
     (case msg_to_send s of
        [] \<Rightarrow> s
      | msg # rest \<Rightarrow>
          let s1 = log_send (deref s msg) (s\<lparr>msg_to_send := rest\<rparr>) in
          if (case oks of [] \<Rightarrow> True | ok # _ \<Rightarrow> ok)
          then drain (tl oks) (emit (WsSend (deref s msg)) s1)
          else (let s2 = emit LogError s1 in s2\<lparr>msg_to_send := msg # msg_to_send s2\<rparr>))"
  by pat_completeness auto
termination
  by (relation "measure (\<lambda>(oks, s). length (msg_to_send s))")
     (auto simp: log_send_def emit_def)

definition loop_body ::
    "iteration \<Rightarrow> json option \<Rightarrow> cielo_home \<Rightarrow> flow \<times> json option \<times> cielo_home" where
  "loop_body it js_data s =
     (case receive_part (frame it) js_data s of
        (Next, js1, s1) \<Rightarrow> (Next, js1, drain (sends it) s1)
      | (Break, js1, s1) \<Rightarrow> (Break, js1, s1)
      | (Raised e, js1, s1) \<Rightarrow> (Raised e, js1, s1))"

text \<open>
  The \<^verbatim>\<open>while self._is_running\<close> loop over the passes that are still to come: how it is
  left (\<open>None\<close>: by its condition or by \<^verbatim>\<open>break\<close>; \<open>Some e\<close>: by an exception), the passes it
  did not begin, and the state. With no pass left and the flag still set the loop is
  still running.
\<close>

datatype loop_end = StillRunning | Left "error option"

fun connected_loop ::
    "iteration list \<Rightarrow> json option \<Rightarrow> cielo_home \<Rightarrow> loop_end \<times> iteration list \<times> cielo_home" where
  "connected_loop [] js_data s = (if is_running s then StillRunning else Left None, [], s)"
| "connected_loop (it # its) js_data s =
     (if is_running s then
        (case loop_body it js_data s of
           (Next, js1, s1) \<Rightarrow> connected_loop its js1 s1
         | (Break, js1, s1) \<Rightarrow> (Left None, its, s1)
         | (Raised e, js1, s1) \<Rightarrow> (Left (Some e), its, s1))
      else (Left None, it # its, s))"

text \<open>
  The end of \<^verbatim>\<open>async_connect_wss\<close>, after the \<^verbatim>\<open>try\<close>: closing a socket that is still
  open, and, unless a stop was asked for, starting the watchdog; \<open>Reconnect\<close> stands for
  the five seconds of sleep and the new \<^verbatim>\<open>async_connect_wss(True)\<close> task after them.
\<close>

datatype connect_end = StillConnected | NoReconnect | Reconnect | TaskRaised error

definition after_try :: "cielo_home \<Rightarrow> connect_end \<times> cielo_home" where
  "after_try s =
     (case (if websocket_closed s = Some False then
              (case timer_ping s of
                 None \<Rightarrow> (Some AttributeError, s)
               | Some i \<Rightarrow> (None, emit WsClose (cancel_timer i s)\<lparr>websocket_closed := Some True\<rparr>))
            else (None, s)) of
        (Some e, s1) \<Rightarrow> (TaskRaised e, s1)
      | (None, s1) \<Rightarrow>
          if \<not> stop_running s1 then (Reconnect, start_timer_connection_lost s1)
          else (NoReconnect, s1))"

text \<open>The \<^verbatim>\<open>except Exception\<close> of the outer \<^verbatim>\<open>try\<close>.\<close>

definition on_exception :: "cielo_home \<Rightarrow> cielo_home" where
  "on_exception s = (let s1 = emit LogError s in s1\<lparr>last_refresh_token_ts := Some (get_ts s1 - 1200)\<rparr>)"

text \<open>
  Leaving the \<^verbatim>\<open>async with\<close> of the socket closes it (aiohttp's context manager), so the
  socket is closed when the code after the \<^verbatim>\<open>try\<close> looks at it.
\<close>

definition leave_with :: "cielo_home \<Rightarrow> cielo_home" where
  "leave_with s = (emit WsClose s)\<lparr>websocket_closed := Some True\<rparr>"

text \<open>The code of \<^verbatim>\<open>async_connect_wss\<close> on entry of the connected socket, up to the loop.\<close>

definition on_connected :: "bool \<Rightarrow> cielo_home \<Rightarrow> cielo_home" where
  "on_connected update_state s =
     (let s1 = s\<lparr>websocket_closed := Some False\<rparr>;
          s2 = stop_timer_connection_lost s1;
          s3 = (if update_state then emit CreateTaskUpdateStateDevice s2 else s2);
          s4 = s3\<lparr>last_refresh_token_ts := Some (get_ts s3)\<rparr>
      in start_timer_ping s4)"

text \<open>The part of the coroutine from a point inside the loop on.\<close>

definition leave_loop :: "loop_end \<times> iteration list \<times> cielo_home \<Rightarrow> connect_end \<times> cielo_home" where
  "leave_loop r =
     (case r of
        (StillRunning, its, s) \<Rightarrow> (StillConnected, s)
      | (Left None, its, s) \<Rightarrow> after_try (leave_with s)
      | (Left (Some e), its, s) \<Rightarrow> after_try (on_exception (leave_with s)))"

text \<open>What a connection attempt meets: the handshake fails, or it succeeds and the loop runs.\<close>

datatype connection = HandshakeFails | Connects "iteration list"

definition async_connect_wss :: "bool \<Rightarrow> connection \<Rightarrow> cielo_home \<Rightarrow> connect_end \<times> cielo_home" where
  "async_connect_wss update_state conn s =
     (case (session_id s, access_token s) of
        (JStr sid, JStr tok) \<Rightarrow>
          let s1 = s\<lparr>is_running := True, stop_running := False\<rparr> in
          (case conn of
             HandshakeFails \<Rightarrow> after_try (on_exception s1)
           | Connects its \<Rightarrow> leave_loop (connected_loop its None (on_connected update_state s1)))
      | _ \<Rightarrow> (TaskRaised TypeError, s))"

subsection \<open>Time\<close>

text \<open>
  One second passes: the clock moves on and every started timer whose deadline is reached
  and that was not cancelled runs its function, once. \<open>http\<close> is what a token refresh made
  during this second gets as its answer. An exception in a timer function ends that
  timer's thread and nothing else.
\<close>

definition run_callback :: "http_result \<Rightarrow> callback \<Rightarrow> cielo_home \<Rightarrow> cielo_home" where
  "run_callback http cb s =
     (case cb of
        CbRefreshToken \<Rightarrow> snd (refresh_token http s)
      | CbSendPing \<Rightarrow> send_ping s
      | CbDispatchConnectionLost \<Rightarrow> dispatch_connection_lost s)"

definition due :: "cielo_home \<Rightarrow> nat \<Rightarrow> bool" where
  "due s i =
     (i < length (pool s) \<and> \<not> cancelled (pool s ! i) \<and> \<not> finished (pool s ! i)
      \<and> deadline (pool s ! i) \<le> clock s)"

definition fire :: "http_result \<Rightarrow> cielo_home \<Rightarrow> nat \<Rightarrow> cielo_home" where
  "fire http s i =
     (if due s i then
        run_callback http (callback (pool s ! i))
          (s\<lparr>pool := (pool s)[i := (pool s ! i)\<lparr>finished := True\<rparr>]\<rparr>)
      else s)"

definition tick :: "http_result \<Rightarrow> cielo_home \<Rightarrow> cielo_home" where
  "tick http s =
     (let s1 = s\<lparr>clock := clock s + 1\<rparr> in foldl (fire http) s1 [0..<length (pool s1)])"

text \<open>Seconds pass, one for each element of the list, which is that second's \<open>http\<close>.\<close>

fun ticks :: "http_result list \<Rightarrow> cielo_home \<Rightarrow> cielo_home" where
  "ticks [] s = s"
| "ticks (h # hs) s = ticks hs (tick h s)"

text \<open>\<open>n\<close> seconds pass in which a token refresh, if one is made, raises.\<close>

definition wait :: "nat \<Rightarrow> cielo_home \<Rightarrow> cielo_home" where
  "wait n s = ticks (replicate n HttpRaises) s"

subsection \<open>Observations\<close>

text \<open>The frames put on the socket, the debug lines, and the calls counted in the trace.\<close>

definition wire :: "cielo_home \<Rightarrow> dict list" where
  "wire s = concat (map (\<lambda>e. case e of WsSend m \<Rightarrow> [m] | _ \<Rightarrow> []) (trace s))"

definition log_lines :: "cielo_home \<Rightarrow> string list" where
  "log_lines s = concat (map (\<lambda>e. case e of LogDebug l \<Rightarrow> [l] | _ \<Rightarrow> []) (trace s))"

definition lost_calls :: "nat \<Rightarrow> cielo_home \<Rightarrow> nat" where
  "lost_calls listener s = count_list (trace s) (LostConnection listener)"

definition refresh_calls :: "cielo_home \<Rightarrow> nat" where
  "refresh_calls s = count_list (trace s) HttpRefresh"

text \<open>The coroutine taken up inside a pass of the loop: the rest of the pass, then the loop.\<close>

definition finish_pass ::
    "iteration \<Rightarrow> iteration list \<Rightarrow> json option \<Rightarrow> cielo_home
      \<Rightarrow> loop_end \<times> iteration list \<times> cielo_home" where
  "finish_pass it its js_data s =
     (case loop_body it js_data s of
        (Next, js1, s1) \<Rightarrow> connected_loop its js1 s1
      | (Break, js1, s1) \<Rightarrow> (Left None, its, s1)
      | (Raised e, js1, s1) \<Rightarrow> (Left (Some e), its, s1))"

text \<open>
  How many items of a queue of \<open>n\<close> a send pass puts on the socket: all of them, unless
  one of the first \<open>n\<close> sends fails, and then the items before that one.
\<close>

definition passes :: "bool list \<Rightarrow> nat \<Rightarrow> nat" where
  "passes oks n = (if length (takeWhile id oks) < length oks
                   then min n (length (takeWhile id oks)) else n)"

text \<open>
  The refresh timers that have run, and whether a refresh timer is started, neither run
  nor cancelled, and due within the next 60 seconds.
\<close>

definition refresh_fired :: "cielo_home \<Rightarrow> nat" where
  "refresh_fired s =
     length (filter (\<lambda>t. callback t = CbRefreshToken \<and> finished t) (pool s))"

definition refresh_armed :: "cielo_home \<Rightarrow> bool" where
  "refresh_armed s =
     list_ex (\<lambda>t. callback t = CbRefreshToken \<and> \<not> cancelled t \<and> \<not> finished t
                 \<and> clock s < deadline t \<and> deadline t \<le> clock s + 60) (pool s)"

text \<open>The timers that a timer function starts when it runs at second \<open>c\<close>.\<close>

definition spawned :: "callback \<Rightarrow> int \<Rightarrow> timer list" where
  "spawned cb c =
     (case cb of
        CbRefreshToken \<Rightarrow> [\<lparr>deadline = c + 60, callback = CbRefreshToken, cancelled = False, finished = False\<rparr>]
      | CbSendPing \<Rightarrow> [\<lparr>deadline = c + 588, callback = CbSendPing, cancelled = False, finished = False\<rparr>]
      | CbDispatchConnectionLost \<Rightarrow> [])"

text \<open>
  The timestamp of the last refresh is set, not before \<open>l\<close>, and not after what \<open>get_ts\<close>
  reads now.
\<close>

definition not_before :: "int \<Rightarrow> cielo_home \<Rightarrow> bool" where
  "not_before l s =
     (case last_refresh_token_ts s of None \<Rightarrow> False | Some l' \<Rightarrow> l \<le> l' \<and> l' \<le> get_ts s)"

text \<open>
  What can happen between the stamping of a command and its sending: a second passes, a
  caller builds a dict, a dict is passed to \<open>send_action\<close>, a send pass runs, a login or
  a token refresh is made, a frame is received, the session is closed, a connection is
  made and runs. The last and the send pass put frames on the socket.
\<close>

datatype event =
    Tick http_result
  | NewDict dict
  | SendAction nat
  | SendPass "bool list"
  | Login string string bool http_result
  | Refresh http_result
  | Receive received "json option"
  | Close
  | Connect bool connection





text \<open>What \<open>send_action\<close> makes of a dict in the state \<open>s\<close>.\<close>

definition stamped :: "cielo_home \<Rightarrow> dict \<Rightarrow> dict" where
  "stamped s d =
     AList.update ''ts'' (JInt (stamp_ts s))
       (AList.update ''mid'' (session_id s) (AList.update ''token'' (access_token s) d))"

text \<open>
  Two sessions that are the same but for their tokens: they may differ in the access
  token, in the refresh token and in the token fields of the dicts in the store, and agree
  on the queue, on the debug lines written so far and on what stamping reads.
\<close>

definition masked :: "dict \<Rightarrow> dict" where
  "masked d = AList.update ''token'' (JStr ''*****'') d"

definition same_but_tokens :: "cielo_home \<Rightarrow> cielo_home \<Rightarrow> bool" where
  "same_but_tokens a b =
     (debug_enabled a = debug_enabled b \<and> msg_to_send a = msg_to_send b
      \<and> session_id a = session_id b \<and> clock a = clock b \<and> utc_offset a = utc_offset b
      \<and> last_ts_msg a = last_ts_msg b \<and> map masked (dicts a) = map masked (dicts b)
      \<and> log_lines a = log_lines b)"

section \<open>Properties\<close>

text \<open>
  C1 (code at a failing input). Three commands, each a dict of its own, passed to
  \<open>send_action\<close> in the same wall-clock second 100: the second is bumped to 101, the third
  compares 100 with the remembered 101, is not bumped, and is stamped 100 again. The third
  ts is smaller than the second and equal to the first. With one dict passed three times,
  the three queued frames are that one dict, and all read 100.
\<close>

theorem send_action_three_same_second:
  "queued_ts (send_action 2 (send_action 1 (send_action 0
      (init\<lparr>clock := 100, dicts := [[], [], []]\<rparr>))))
     = [Some (JInt 100), Some (JInt 101), Some (JInt 100)]
   \<and> queued_ts (send_action 0 (send_action 0 (send_action 0
      (init\<lparr>clock := 100, dicts := [[]]\<rparr>))))
     = [Some (JInt 100), Some (JInt 100), Some (JInt 100)]"
  by code_simp

text \<open>
  C2 (code at a failing input). The connection drops at second 0 (a close frame) and the
  reconnect attempts at seconds 5 and 10 both fail at the handshake, so no attempt reaches
  the connected state. Each pass through the end of \<open>async_connect_wss\<close> starts a new
  watchdog and overwrites the field that held the previous one, which keeps running: by
  second 15 the watchdogs of seconds 0 and 5 have both run, and each of the two observers
  has been told twice that the connection is lost.
\<close>

theorem watchdog_fires_once_per_failed_attempt:
  "(let s0 = add_listener 1 (add_listener 0 init);
        r1 = async_connect_wss False (Connects [\<lparr>frame = RecvClose, sends = []\<rparr>]) s0;
        r2 = async_connect_wss True HandshakeFails (wait 5 (snd r1));
        r3 = async_connect_wss True HandshakeFails (wait 5 (snd r2));
        s4 = wait 5 (snd r3)
    in (fst r1, fst r2, fst r3, clock s4, lost_calls 0 s4, lost_calls 1 s4))
   = (Reconnect, Reconnect, Reconnect, 15, 2, 2)"
  by code_simp

subsection \<open>The refresh gate\<close>

lemma store_refresh_trace: "trace (snd (store_refresh j s)) = trace s"
  by (simp add: store_refresh_def Let_def split: sum.splits)

lemma async_refresh_token_calls:
  "refresh_token_field s = JStr rt \<Longrightarrow>
   refresh_calls (snd (async_refresh_token http s)) = refresh_calls s + 1"
  by (auto simp: async_refresh_token_def Let_def refresh_calls_def emit_def store_refresh_trace
      split: http_result.splits option.splits sum.splits)

lemma start_timer_refreshtoken_simps:
  "trace (start_timer_refreshtoken s) = trace s"
  "last_refresh_token_ts (start_timer_refreshtoken s) = last_refresh_token_ts s"
  "refresh_token_field (start_timer_refreshtoken s) = refresh_token_field s"
  "clock (start_timer_refreshtoken s) = clock s"
  "get_ts (start_timer_refreshtoken s) = get_ts s"
  by (simp_all add: start_timer_refreshtoken_def new_timer_def get_ts_def)

text \<open>
  C4 (the claim fails). With exactly 1200 seconds elapsed since the last refresh, a tick
  of the refresh timer makes no refresh request.
\<close>

theorem refresh_token_not_at_1200:
  "refresh_calls (snd (refresh_token (HttpResponse 200 None)
      (init\<lparr>last_refresh_token_ts := Some 0, clock := 1200\<rparr>))) = 0"
  by code_simp

text \<open>
  C4 (amended). A tick of the refresh timer makes one refresh request when more than 1200
  seconds have elapsed since the last refresh, and none otherwise (the refresh token being
  a string, as it is after a login).
\<close>

theorem refresh_token_gate:
  "last_refresh_token_ts s = Some l \<Longrightarrow> refresh_token_field s = JStr rt \<Longrightarrow>
   refresh_calls (snd (refresh_token http s))
     = refresh_calls s + (if get_ts s - l > 1200 then 1 else 0)"
proof -
  let ?s1 = "start_timer_refreshtoken s"
  assume l: "last_refresh_token_ts s = Some l" and rt: "refresh_token_field s = JStr rt"
  have same: "refresh_calls ?s1 = refresh_calls s"
    by (simp add: refresh_calls_def start_timer_refreshtoken_simps)
  have "refresh_calls (snd (async_refresh_token http ?s1)) = refresh_calls ?s1 + 1"
    using rt by (intro async_refresh_token_calls [of _ rt]) (simp add: start_timer_refreshtoken_simps)
  with l same show ?thesis
    by (simp add: refresh_token_def Let_def start_timer_refreshtoken_simps)
qed

theorem refresh_token_gate_witness:
  "refresh_calls (snd (refresh_token HttpRaises
      (init\<lparr>last_refresh_token_ts := Some 0, clock := 1199\<rparr>))) = 0
   \<and> refresh_calls (snd (refresh_token HttpRaises
      (init\<lparr>last_refresh_token_ts := Some 0, clock := 1201\<rparr>))) = 1"
  using refresh_token_gate [of "init\<lparr>last_refresh_token_ts := Some 0, clock := 1199\<rparr>" 0 "[]" HttpRaises]
        refresh_token_gate [of "init\<lparr>last_refresh_token_ts := Some 0, clock := 1201\<rparr>" 0 "[]" HttpRaises]
  by (simp add: init_def get_ts_def refresh_calls_def)

subsection \<open>Inbound frames\<close>

text \<open>
  C6 (code at a failing input). A frame that does not parse leaves \<open>js_data\<close> as it was,
  and the test of \<open>message_type\<close> that follows the inner \<open>try\<close> reads it all the same.
  After a StateUpdate event, a malformed frame hands the previous event to the observer
  a second time; as the first frame of a connection, it finds \<open>js_data\<close> unbound and the
  loop is left by the exception.
\<close>

theorem malformed_frame_after_state_update:
  "connected_loop
     [\<lparr>frame = RecvData (Loads (JObj [(''message_type'', JStr ''StateUpdate'')])), sends = []\<rparr>,
      \<lparr>frame = RecvData Malformed, sends = []\<rparr>] None (add_listener 7 init)
   = (StillRunning, [],
      (add_listener 7 init)\<lparr>trace := [DataReceive 7 (JObj [(''message_type'', JStr ''StateUpdate'')]),
                                       DataReceive 7 (JObj [(''message_type'', JStr ''StateUpdate'')])]\<rparr>)
   \<and> fst (connected_loop
        [\<lparr>frame = RecvData Malformed, sends = []\<rparr>, \<lparr>frame = RecvTimeout, sends = []\<rparr>]
        None (add_listener 7 init))
     = Left (Some UnboundLocalError)"
  by code_simp

subsection \<open>The send pass\<close>

declare drain.simps [simp del]

lemma passes_simps:
  "passes oks 0 = 0"
  "passes [] n = n"
  "passes (True # oks) (Suc n) = Suc (passes oks n)"
  "passes (False # oks) n = 0"
  by (simp_all add: passes_def)

lemma deref_cong: "dicts s' = dicts s \<Longrightarrow> deref s' = deref s"
  by (rule ext) (simp add: deref_def)

lemma wire_emit: "wire (emit e s) = wire s @ (case e of WsSend m \<Rightarrow> [m] | _ \<Rightarrow> [])"
  by (simp add: wire_def emit_def)

lemma wire_log_send: "wire (log_send m s) = wire s"
  by (simp add: log_send_def wire_emit)

lemma wire_update [simp]: "wire (s\<lparr>msg_to_send := q\<rparr>) = wire s"
  by (simp add: wire_def)

lemma queue_emit [simp]: "msg_to_send (emit e s) = msg_to_send s"
  by (simp add: emit_def)

lemma queue_log_send [simp]: "msg_to_send (log_send m s) = msg_to_send s"
  by (simp add: log_send_def)

lemma dicts_emit [simp]: "dicts (emit e s) = dicts s"
  by (simp add: emit_def)

lemma dicts_log_send [simp]: "dicts (log_send m s) = dicts s"
  by (simp add: log_send_def)

lemma drain_Nil: "msg_to_send s = [] \<Longrightarrow> drain oks s = s"
  by (simp add: drain.simps)

lemma drain_ok:
  "msg_to_send s = r # rest \<Longrightarrow> (case oks of [] \<Rightarrow> True | ok # _ \<Rightarrow> ok) \<Longrightarrow>
   drain oks s = drain (tl oks)
     (emit (WsSend (deref s r)) (log_send (deref s r) (s\<lparr>msg_to_send := rest\<rparr>)))"
  by (subst drain.simps) (simp add: Let_def)

lemma drain_fail:
  "msg_to_send s = r # rest \<Longrightarrow> oks = False # oks' \<Longrightarrow>
   drain oks s = (emit LogError (log_send (deref s r) (s\<lparr>msg_to_send := rest\<rparr>)))\<lparr>msg_to_send := r # rest\<rparr>"
  by (subst drain.simps) (simp add: Let_def)

lemma drain_sent:
  "msg_to_send s = q \<Longrightarrow>
   wire (drain oks s) = wire s @ map (deref s) (take (passes oks (length q)) q)
   \<and> msg_to_send (drain oks s) = drop (passes oks (length q)) q
   \<and> dicts (drain oks s) = dicts s"
proof (induction q arbitrary: oks s)
  case Nil
  then show ?case by (simp add: drain_Nil passes_simps)
next
  case (Cons r rest)
  let ?s1 = "emit (WsSend (deref s r)) (log_send (deref s r) (s\<lparr>msg_to_send := rest\<rparr>))"
  have q1: "msg_to_send ?s1 = rest" by simp
  have d1: "deref ?s1 = deref s" by (rule deref_cong) simp
  have w1: "wire ?s1 = wire s @ [deref s r]" by (simp add: wire_emit wire_log_send)
  show ?case
  proof (cases oks)
    case Nil
    have "drain oks s = drain [] ?s1"
      using Cons.prems Nil by (simp add: drain_ok)
    then show ?thesis
      using Cons.IH [OF q1, of "[]"] Nil d1 w1 by (simp add: passes_simps)
  next
    case (Cons ok oks')
    show ?thesis
    proof (cases ok)
      case True
      have "drain oks s = drain oks' ?s1"
        using Cons.prems Cons True by (simp add: drain_ok)
      then show ?thesis
        using Cons.IH [OF q1, of oks'] Cons True d1 w1 by (simp add: passes_simps)
    next
      case False
      then show ?thesis
        using Cons.prems Cons by (simp add: drain_fail passes_simps wire_emit wire_log_send)
    qed
  qed
qed

text \<open>
  C3. A send pass puts the queued items on the socket in queue order, as far as the
  sends go through: the socket has received a prefix of the queue, and what stays queued
  is the rest of it, in order. So when the send of an item fails, that item is at the
  front of the queue again, followed by the items behind it, and the items sent before it
  are not in the queue any more.
\<close>

theorem drain_fifo_retry:
  "wire (drain oks s)
     = wire s @ map (deref s) (take (passes oks (length (msg_to_send s))) (msg_to_send s))
   \<and> msg_to_send (drain oks s) = drop (passes oks (length (msg_to_send s))) (msg_to_send s)
   \<and> dicts (drain oks s) = dicts s"
  using drain_sent [of s "msg_to_send s" oks] by simp

text \<open>
  The queue A, B, C with the send of B failing: A is on the socket, B and C stay queued
  in this order, and the next pass sends B and then C.
\<close>

theorem drain_fifo_retry_witness:
  "wire (drain [True, False] (send_json 2 (send_json 1 (send_json 0
     (init\<lparr>dicts := [[(''cmd'', JStr ''A'')], [(''cmd'', JStr ''B'')], [(''cmd'', JStr ''C'')]]\<rparr>)))))
     = [[(''cmd'', JStr ''A'')]]
   \<and> msg_to_send (drain [True, False] (send_json 2 (send_json 1 (send_json 0
     (init\<lparr>dicts := [[(''cmd'', JStr ''A'')], [(''cmd'', JStr ''B'')], [(''cmd'', JStr ''C'')]]\<rparr>)))))
     = [1, 2]
   \<and> wire (drain [] (drain [True, False] (send_json 2 (send_json 1 (send_json 0
     (init\<lparr>dicts := [[(''cmd'', JStr ''A'')], [(''cmd'', JStr ''B'')], [(''cmd'', JStr ''C'')]]\<rparr>))))))
     = [[(''cmd'', JStr ''A'')], [(''cmd'', JStr ''B'')], [(''cmd'', JStr ''C'')]]"
  using drain_fifo_retry [of "[True, False]" "send_json 2 (send_json 1 (send_json 0
     (init\<lparr>dicts := [[(''cmd'', JStr ''A'')], [(''cmd'', JStr ''B'')], [(''cmd'', JStr ''C'')]]\<rparr>)))"]
        drain_fifo_retry [of "[]" "drain [True, False] (send_json 2 (send_json 1 (send_json 0
     (init\<lparr>dicts := [[(''cmd'', JStr ''A'')], [(''cmd'', JStr ''B'')], [(''cmd'', JStr ''C'')]]\<rparr>))))"]
  by (simp add: passes_def send_json_def init_def wire_def deref_def)

subsection \<open>Stopping\<close>

lemma close_emit: "emit e (close s) = close (emit e s)"
  by (simp add: emit_def close_def)

lemma close_fields [simp]:
  "event_listener (close s) = event_listener s"
  "msg_to_send (close s) = msg_to_send s"
  "debug_enabled (close s) = debug_enabled s"
  "pool (close s) = pool s"
  "dicts (close s) = dicts s"
  "is_running (close s) = False"
  "stop_running (close s) = True"
  by (simp_all add: close_def)

lemma close_foldl_emit:
  "foldl (\<lambda>s1 l. emit (f l) s1) (close s) ls = close (foldl (\<lambda>s1 l. emit (f l) s1) s ls)"
  by (induction ls arbitrary: s) (simp_all add: close_emit)

lemma close_dispatch: "dispatch j (close s) = close (dispatch j s)"
  by (simp add: dispatch_def close_foldl_emit)

lemma close_load_frame:
  "load_frame p js (close s) = (case load_frame p js s of (e, js1, s1) \<Rightarrow> (e, js1, close s1))"
  by (simp add: load_frame_def close_emit Let_def split: payload.splits json.splits)

lemma close_receive_part:
  "receive_part r js (close s) = (case receive_part r js s of (fl, js1, s1) \<Rightarrow> (fl, js1, close s1))"
  by (simp add: receive_part_def close_load_frame close_dispatch
      split: received.splits prod.splits option.splits sum.splits)

lemma close_log_send: "log_send m (close s) = close (log_send m s)"
  by (simp add: log_send_def close_emit)

lemma close_queue: "(close s)\<lparr>msg_to_send := q\<rparr> = close (s\<lparr>msg_to_send := q\<rparr>)"
  by (simp add: close_def)

lemma close_deref: "deref (close s) = deref s"
  by (rule deref_cong) simp

lemma close_drain: "msg_to_send s = q \<Longrightarrow> drain oks (close s) = close (drain oks s)"
proof (induction q arbitrary: oks s)
  case Nil
  then show ?case by (simp add: drain_Nil)
next
  case (Cons r rest)
  let ?s1 = "emit (WsSend (deref s r)) (log_send (deref s r) (s\<lparr>msg_to_send := rest\<rparr>))"
  have q: "msg_to_send (close s) = r # rest" using Cons.prems by simp
  show ?case
  proof (cases "case oks of [] \<Rightarrow> True | ok # _ \<Rightarrow> ok")
    case True
    have "drain oks (close s) = drain (tl oks) (close ?s1)"
      using q True by (simp add: drain_ok close_queue close_log_send close_emit close_deref)
    also have "\<dots> = close (drain (tl oks) ?s1)"
      by (rule Cons.IH) simp
    also have "\<dots> = close (drain oks s)"
      using Cons.prems True by (simp add: drain_ok)
    finally show ?thesis .
  next
    case False
    then obtain oks' where oks: "oks = False # oks'"
      by (cases oks) auto
    show ?thesis
      using q Cons.prems oks
      by (simp add: drain_fail close_queue close_log_send close_emit close_deref)
  qed
qed

lemma close_loop_body:
  "loop_body it js (close s) = (case loop_body it js s of (fl, js1, s1) \<Rightarrow> (fl, js1, close s1))"
  by (simp add: loop_body_def close_receive_part close_drain split: prod.splits flow.splits)

lemma connected_loop_stopped:
  "\<not> is_running s \<Longrightarrow> connected_loop its js s = (Left None, its, s)"
  by (cases its) simp_all

lemma after_try_stopped:
  "stop_running s \<Longrightarrow> websocket_closed s = Some True \<Longrightarrow> after_try s = (NoReconnect, s)"
  by (simp add: after_try_def)

lemma leave_loop_stopped:
  "stop_running s \<Longrightarrow> fst (leave_loop (Left x, its, s)) = NoReconnect
     \<and> pool (snd (leave_loop (Left x, its, s))) = pool s
     \<and> timer_connection_lost (snd (leave_loop (Left x, its, s))) = timer_connection_lost s"
  by (cases x) (simp_all add: leave_loop_def after_try_stopped leave_with_def on_exception_def emit_def Let_def)

text \<open>
  C8. \<open>close\<close> sets the stop flag and clears the running flag, and no pass of the loop
  reads or writes either: closing during a pass gives what closing at the end of that pass
  gives, the loop is left at its next test without beginning another pass (the passes
  still to come are all returned), and the code after the loop, whether the loop was left
  by its test, by \<open>break\<close> or by an exception, asks for no reconnect and starts no watchdog.
\<close>

theorem close_ends_loop_without_reconnect:
  "finish_pass it its js (close s)
     = (case loop_body it js s of
          (fl, js1, s1) \<Rightarrow> (Left (case fl of Raised e \<Rightarrow> Some e | _ \<Rightarrow> None), its, close s1))
   \<and> connected_loop its js (close s) = (Left None, its, close s)
   \<and> fst (leave_loop (Left x, its, close s)) = NoReconnect
   \<and> pool (snd (leave_loop (Left x, its, close s))) = pool s
   \<and> timer_connection_lost (snd (leave_loop (Left x, its, close s))) = timer_connection_lost s"
proof -
  have "finish_pass it its js (close s)
     = (case loop_body it js s of
          (fl, js1, s1) \<Rightarrow> (Left (case fl of Raised e \<Rightarrow> Some e | _ \<Rightarrow> None), its, close s1))"
    by (simp add: finish_pass_def close_loop_body connected_loop_stopped
        split: prod.splits flow.splits)
  moreover have "connected_loop its js (close s) = (Left None, its, close s)"
    by (simp add: connected_loop_stopped)
  moreover have "timer_connection_lost (close s) = timer_connection_lost s"
    by (simp add: close_def)
  ultimately show ?thesis
    using leave_loop_stopped [of "close s" x its] by simp
qed

subsection \<open>The timestamp of the last refresh\<close>

text \<open>
  C5 (the claim fails). A connection made at second 1000 sets the timestamp to 1000; the
  reconnect attempt that fails at second 1005 sets it to 1005 - 1200, below its value.
\<close>

theorem failed_connection_rolls_timestamp_back:
  "(let r1 = async_connect_wss False (Connects [\<lparr>frame = RecvClose, sends = []\<rparr>]) (init\<lparr>clock := 1000\<rparr>);
        r2 = async_connect_wss True HandshakeFails (wait 5 (snd r1))
    in (last_refresh_token_ts (snd r1), clock (snd r2), last_refresh_token_ts (snd r2)))
   = (Some 1000, 1005, Some (- 195))"
  by code_simp

lemma step_not_before:
  "not_before l s \<Longrightarrow>
   (last_refresh_token_ts s' = last_refresh_token_ts s \<or> last_refresh_token_ts s' = Some (get_ts s)) \<and>
   clock s' = clock s \<and> utc_offset s' = utc_offset s \<Longrightarrow> not_before l s'"
  by (auto simp: not_before_def get_ts_def split: option.splits)

lemma store_refresh_ts:
  "(last_refresh_token_ts (snd (store_refresh j s)) = last_refresh_token_ts s
    \<or> last_refresh_token_ts (snd (store_refresh j s)) = Some (get_ts s))
   \<and> clock (snd (store_refresh j s)) = clock s
   \<and> utc_offset (snd (store_refresh j s)) = utc_offset s"
  by (simp add: store_refresh_def Let_def get_ts_def split: sum.splits)

lemma async_refresh_token_ts:
  "(last_refresh_token_ts (snd (async_refresh_token http s)) = last_refresh_token_ts s
    \<or> last_refresh_token_ts (snd (async_refresh_token http s)) = Some (get_ts s))
   \<and> clock (snd (async_refresh_token http s)) = clock s
   \<and> utc_offset (snd (async_refresh_token http s)) = utc_offset s"
  using store_refresh_ts [of _ "emit HttpRefresh s"]
  by (auto simp: async_refresh_token_def Let_def emit_def get_ts_def
      split: json.splits http_result.splits option.splits sum.splits)

lemma start_timer_refreshtoken_offset:
  "utc_offset (start_timer_refreshtoken s) = utc_offset s"
  by (simp add: start_timer_refreshtoken_def new_timer_def)

lemma refresh_token_ts:
  "(last_refresh_token_ts (snd (refresh_token http s)) = last_refresh_token_ts s
    \<or> last_refresh_token_ts (snd (refresh_token http s)) = Some (get_ts s))
   \<and> clock (snd (refresh_token http s)) = clock s
   \<and> utc_offset (snd (refresh_token http s)) = utc_offset s"
  using async_refresh_token_ts [of http "start_timer_refreshtoken s"]
  by (auto simp: refresh_token_def Let_def start_timer_refreshtoken_simps
      start_timer_refreshtoken_offset split: option.splits)

lemma store_login_ts:
  "last_refresh_token_ts (snd (store_login j u p s)) = last_refresh_token_ts s
   \<and> clock (snd (store_login j u p s)) = clock s
   \<and> utc_offset (snd (store_login j u p s)) = utc_offset s"
  by (simp add: store_login_def Let_def split: sum.splits)

lemma async_auth_ts:
  "(last_refresh_token_ts (snd (async_auth u p c http s)) = last_refresh_token_ts s
    \<or> last_refresh_token_ts (snd (async_auth u p c http s)) = Some (get_ts s))
   \<and> clock (snd (async_auth u p c http s)) = clock s
   \<and> utc_offset (snd (async_auth u p c http s)) = utc_offset s"
proof (cases http)
  case HttpRaises
  then show ?thesis by (simp add: async_auth_def)
next
  case (HttpResponse status body)
  show ?thesis
  proof (cases "status = 200 \<and> body \<noteq> None")
    case False
    then show ?thesis using HttpResponse by (auto simp: async_auth_def)
  next
    case True
    then obtain j where j: "body = Some j" by auto
    show ?thesis
    proof (cases "is_success j")
      case (Inl e)
      then show ?thesis using HttpResponse True j by (simp add: async_auth_def)
    next
      case (Inr ok)
      obtain e s1 where r: "(if ok then store_login j u p s else (None, s)) = (e, s1)"
        by (cases "if ok then store_login j u p s else (None, s)") auto
      have s1: "last_refresh_token_ts s1 = last_refresh_token_ts s \<and> clock s1 = clock s
          \<and> utc_offset s1 = utc_offset s"
        using r store_login_ts [of j u p s] by (auto split: if_splits)
      show ?thesis
        using HttpResponse True j Inr r s1
        by (cases e) (simp_all add: async_auth_def Let_def emit_def get_ts_def
            start_timer_refreshtoken_simps start_timer_refreshtoken_offset)
    qed
  qed
qed

lemma send_ping_ts:
  "last_refresh_token_ts (send_ping s) = last_refresh_token_ts s \<and> clock (send_ping s) = clock s
   \<and> utc_offset (send_ping s) = utc_offset s"
  by (simp add: send_ping_def send_json_def start_timer_ping_def new_timer_def new_dict_def)

lemma foldl_emit_ts:
  "last_refresh_token_ts (foldl (\<lambda>s1 l. emit (f l) s1) s ls) = last_refresh_token_ts s
   \<and> clock (foldl (\<lambda>s1 l. emit (f l) s1) s ls) = clock s
   \<and> utc_offset (foldl (\<lambda>s1 l. emit (f l) s1) s ls) = utc_offset s"
  by (induction ls arbitrary: s) (simp_all add: emit_def)

lemma run_callback_not_before:
  "not_before l s \<Longrightarrow> not_before l (run_callback http cb s)"
proof (cases cb)
  case CbRefreshToken
  assume "not_before l s"
  then show ?thesis
    using CbRefreshToken refresh_token_ts [of http s]
    by (simp add: run_callback_def step_not_before)
next
  case CbSendPing
  assume "not_before l s"
  then show ?thesis
    using CbSendPing send_ping_ts [of s] by (simp add: run_callback_def step_not_before)
next
  case CbDispatchConnectionLost
  assume "not_before l s"
  then show ?thesis
    using CbDispatchConnectionLost foldl_emit_ts [of LostConnection s "event_listener s"]
    by (simp add: run_callback_def dispatch_connection_lost_def step_not_before)
qed

lemma fire_not_before: "not_before l s \<Longrightarrow> not_before l (fire http s i)"
proof -
  assume a: "not_before l s"
  have "not_before l (s\<lparr>pool := x\<rparr>)" for x
    using a by (simp add: not_before_def get_ts_def split: option.splits)
  then show ?thesis
    using a by (simp add: fire_def run_callback_not_before)
qed

lemma foldl_fire_not_before:
  "not_before l s \<Longrightarrow> not_before l (foldl (fire http) s is)"
  by (induction "is" arbitrary: s) (simp_all add: fire_not_before)

lemma tick_not_before: "not_before l s \<Longrightarrow> not_before l (tick http s)"
proof -
  assume a: "not_before l s"
  have "not_before l (s\<lparr>clock := clock s + 1\<rparr>)"
    using a by (auto simp: not_before_def get_ts_def split: option.splits)
  then show ?thesis
    by (simp add: tick_def Let_def foldl_fire_not_before)
qed

lemma on_connected_ts:
  "last_refresh_token_ts (on_connected b s) = Some (get_ts s) \<and> clock (on_connected b s) = clock s
   \<and> utc_offset (on_connected b s) = utc_offset s"
  by (simp add: on_connected_def Let_def start_timer_ping_def new_timer_def get_ts_def emit_def
      stop_timer_connection_lost_def cancel_timer_def split: option.splits)

text \<open>
  C5 (amended). Login, a token refresh (called directly or by the refresh timer), reaching
  the connected state and the passing of time never lower the timestamp of the last
  refresh: each leaves it or sets it to what \<open>get_ts\<close> reads, which is not before it. The
  \<open>except\<close> branch of \<open>async_connect_wss\<close> sets it to what \<open>get_ts\<close> reads less 1200.
\<close>

theorem refresh_timestamp_steps:
  "not_before l s \<Longrightarrow>
     not_before l (snd (async_auth u p c http s))
   \<and> not_before l (snd (async_refresh_token http s))
   \<and> not_before l (snd (refresh_token http s))
   \<and> not_before l (on_connected b s)
   \<and> not_before l (tick http s)
   \<and> last_refresh_token_ts (on_exception s) = Some (get_ts s - 1200)"
proof -
  assume a: "not_before l s"
  have "not_before l (on_connected b s)"
    using a on_connected_ts [of b s] by (simp add: step_not_before)
  moreover have "last_refresh_token_ts (on_exception s) = Some (get_ts s - 1200)"
    by (simp add: on_exception_def Let_def get_ts_def emit_def)
  ultimately show ?thesis
    using a async_auth_ts [of u p c http s] async_refresh_token_ts [of http s]
      refresh_token_ts [of http s] tick_not_before [of l s http]
    by (simp add: step_not_before)
qed

theorem refresh_timestamp_steps_witness:
  "not_before 1000 (init\<lparr>last_refresh_token_ts := Some 1000, clock := 1005\<rparr>)
   \<and> not_before 1000 (on_connected True (init\<lparr>last_refresh_token_ts := Some 1000, clock := 1005\<rparr>))
   \<and> not_before 1000 (tick HttpRaises (init\<lparr>last_refresh_token_ts := Some 1000, clock := 1005\<rparr>))
   \<and> last_refresh_token_ts (on_exception (init\<lparr>last_refresh_token_ts := Some 1000, clock := 1005\<rparr>))
       = Some (- 195)"
  using refresh_timestamp_steps [of 1000 "init\<lparr>last_refresh_token_ts := Some 1000, clock := 1005\<rparr>"
      "[]" "[]" False HttpRaises True]
  by (simp add: not_before_def init_def get_ts_def)

subsection \<open>The refresh timer after a stop\<close>

lemma store_refresh_pool:
  "pool (snd (store_refresh j s)) = pool s \<and> clock (snd (store_refresh j s)) = clock s"
  by (simp add: store_refresh_def Let_def split: sum.splits)

lemma async_refresh_token_pool:
  "pool (snd (async_refresh_token http s)) = pool s \<and> clock (snd (async_refresh_token http s)) = clock s"
  using store_refresh_pool [of _ "emit HttpRefresh s"]
  by (auto simp: async_refresh_token_def Let_def emit_def
      split: json.splits http_result.splits option.splits sum.splits)

lemma refresh_token_pool:
  "pool (snd (refresh_token http s)) = pool s @ spawned CbRefreshToken (clock s)
   \<and> clock (snd (refresh_token http s)) = clock s"
proof -
  let ?s1 = "start_timer_refreshtoken s"
  have p: "pool ?s1 = pool s @ spawned CbRefreshToken (clock s)" and c: "clock ?s1 = clock s"
    by (simp_all add: start_timer_refreshtoken_def new_timer_def spawned_def)
  show ?thesis
    using async_refresh_token_pool [of http ?s1] p c
    by (auto simp: refresh_token_def Let_def split: option.splits)
qed

lemma foldl_emit_pool:
  "pool (foldl (\<lambda>s1 l. emit (f l) s1) s ls) = pool s
   \<and> clock (foldl (\<lambda>s1 l. emit (f l) s1) s ls) = clock s"
  by (induction ls arbitrary: s) (simp_all add: emit_def)

lemma run_callback_pool:
  "pool (run_callback http cb s) = pool s @ spawned cb (clock s)
   \<and> clock (run_callback http cb s) = clock s"
proof (cases cb)
  case CbRefreshToken
  then show ?thesis using refresh_token_pool [of http s] by (simp add: run_callback_def)
next
  case CbSendPing
  then show ?thesis
    by (simp add: run_callback_def send_ping_def send_json_def start_timer_ping_def
        new_timer_def new_dict_def spawned_def)
next
  case CbDispatchConnectionLost
  then show ?thesis
    using foldl_emit_pool [of LostConnection s "event_listener s"]
    by (simp add: run_callback_def dispatch_connection_lost_def spawned_def)
qed

lemma fire_pool:
  "pool (fire http s j)
     = (if due s j then (pool s)[j := (pool s ! j)\<lparr>finished := True\<rparr>] @ spawned (callback (pool s ! j)) (clock s)
        else pool s)
   \<and> clock (fire http s j) = clock s"
  using run_callback_pool [of http "callback (pool s ! j)" "s\<lparr>pool := (pool s)[j := (pool s ! j)\<lparr>finished := True\<rparr>]\<rparr>"]
  by (simp add: fire_def)

lemma fire_clock: "clock (fire http s j) = clock s"
  by (simp add: fire_pool)

lemma fire_length: "length (pool s) \<le> length (pool (fire http s j))"
  by (simp add: fire_pool)

lemma fire_nth_other:
  "i < length (pool s) \<Longrightarrow> i \<noteq> j \<or> \<not> due s i \<Longrightarrow> pool (fire http s j) ! i = pool s ! i"
  by (auto simp: fire_pool nth_append)

lemma fired_spawned:
  "filter (\<lambda>t. callback t = CbRefreshToken \<and> finished t) (spawned cb c) = []"
  by (simp add: spawned_def split: callback.splits)

lemma fired_update:
  "j < length p \<Longrightarrow> \<not> finished (p ! j) \<Longrightarrow>
   length (filter (\<lambda>t. callback t = CbRefreshToken \<and> finished t) (p[j := (p ! j)\<lparr>finished := True\<rparr>]))
     = length (filter (\<lambda>t. callback t = CbRefreshToken \<and> finished t) p)
       + (if callback (p ! j) = CbRefreshToken then 1 else 0)"
proof -
  assume j: "j < length p" and nf: "\<not> finished (p ! j)"
  have p: "p = take j p @ p ! j # drop (Suc j) p"
    using j by (simp add: id_take_nth_drop)
  have u: "p[j := (p ! j)\<lparr>finished := True\<rparr>] = take j p @ (p ! j)\<lparr>finished := True\<rparr> # drop (Suc j) p"
    using j by (simp add: upd_conv_take_nth_drop)
  show ?thesis
    by (subst u, subst (3) p) (use nf in simp)
qed

lemma fire_fired:
  "refresh_fired (fire http s j)
     = refresh_fired s + (if due s j \<and> callback (pool s ! j) = CbRefreshToken then 1 else 0)"
proof (cases "due s j")
  case False
  then show ?thesis by (simp add: refresh_fired_def fire_pool)
next
  case True
  then have "j < length (pool s)" "\<not> finished (pool s ! j)"
    by (simp_all add: due_def)
  then show ?thesis
    using True fired_update [of j "pool s"]
    by (simp add: refresh_fired_def fire_pool fired_spawned)
qed


lemma due_same:
  "i < length (pool s) \<Longrightarrow> length (pool s) \<le> length (pool s') \<Longrightarrow>
   pool s' ! i = pool s ! i \<Longrightarrow> clock s' = clock s \<Longrightarrow> due s' i = due s i"
  by (auto simp: due_def)

lemma fold_fire_clock: "clock (foldl (fire http) s js) = clock s"
  by (induction js arbitrary: s) (simp_all add: fire_clock)

lemma fold_fire_length: "length (pool s) \<le> length (pool (foldl (fire http) s js))"
proof (induction js arbitrary: s)
  case Nil
  then show ?case by simp
next
  case (Cons j js)
  show ?case
    using Cons [of "fire http s j"] fire_length [of s http j] by simp
qed

lemma fold_fire_fired: "refresh_fired s \<le> refresh_fired (foldl (fire http) s js)"
proof (induction js arbitrary: s)
  case Nil
  then show ?case by simp
next
  case (Cons j js)
  show ?case
    using Cons [of "fire http s j"] by (simp add: fire_fired)
qed

lemma fold_fire_nth_absent:
  "i < length (pool s) \<Longrightarrow> i \<notin> set js \<Longrightarrow> pool (foldl (fire http) s js) ! i = pool s ! i"
proof (induction js arbitrary: s)
  case Nil
  then show ?case by simp
next
  case (Cons j js)
  have "i < length (pool (fire http s j))"
    using Cons.prems(1) fire_length [of s http j] by simp
  moreover have "pool (fire http s j) ! i = pool s ! i"
    using Cons.prems by (simp add: fire_nth_other)
  ultimately show ?case
    using Cons.IH [of "fire http s j"] Cons.prems(2) by simp
qed

lemma fold_fire_nth_not_due:
  "i < length (pool s) \<Longrightarrow> \<not> due s i \<Longrightarrow> pool (foldl (fire http) s js) ! i = pool s ! i"
proof (induction js arbitrary: s)
  case Nil
  then show ?case by simp
next
  case (Cons j js)
  have l: "length (pool s) \<le> length (pool (fire http s j))"
    by (rule fire_length)
  have n: "pool (fire http s j) ! i = pool s ! i"
    using Cons.prems by (simp add: fire_nth_other)
  have "\<not> due (fire http s j) i"
    using Cons.prems due_same [OF Cons.prems(1) l n fire_clock] by simp
  then show ?case
    using Cons.IH [of "fire http s j"] Cons.prems(1) l n by simp
qed


lemma tick_clock: "clock (tick http s) = clock s + 1"
  by (simp add: tick_def Let_def fold_fire_clock)

lemma tick_fired: "refresh_fired s \<le> refresh_fired (tick http s)"
  using fold_fire_fired [of "s\<lparr>clock := clock s + 1\<rparr>" http "[0..<length (pool s)]"]
  by (simp add: tick_def Let_def refresh_fired_def)

lemma tick_length: "length (pool s) \<le> length (pool (tick http s))"
  using fold_fire_length [of "s\<lparr>clock := clock s + 1\<rparr>" http "[0..<length (pool s)]"]
  by (simp add: tick_def Let_def)

lemma tick_keeps:
  "i < length (pool s) \<Longrightarrow> clock s + 1 < deadline (pool s ! i) \<Longrightarrow>
   pool (tick http s) ! i = pool s ! i"
  using fold_fire_nth_not_due [of i "s\<lparr>clock := clock s + 1\<rparr>" http "[0..<length (pool s)]"]
  by (simp add: tick_def Let_def due_def)

lemma tick_fires:
  assumes i: "i < length (pool s)"
    and t: "callback (pool s ! i) = CbRefreshToken" "\<not> cancelled (pool s ! i)"
      "\<not> finished (pool s ! i)"
    and d: "deadline (pool s ! i) \<le> clock s + 1"
  shows "refresh_fired s + 1 \<le> refresh_fired (tick http s)
    \<and> (\<exists>k < length (pool (tick http s)). pool (tick http s) ! k
          = \<lparr>deadline = clock s + 1 + 60, callback = CbRefreshToken,
             cancelled = False, finished = False\<rparr>)"
proof -
  let ?s1 = "s\<lparr>clock := clock s + 1\<rparr>"
  let ?n = "length (pool s)"
  let ?a = "foldl (fire http) ?s1 [0..<i]"
  let ?b = "fire http ?a i"
  let ?c = "foldl (fire http) ?b [Suc i..<?n]"
  let ?new = "\<lparr>deadline = clock s + 1 + 60, callback = CbRefreshToken,
               cancelled = False, finished = False\<rparr>"
  have "[0..<i + (?n - i)] = [0..<i] @ [i..<i + (?n - i)]"
    by (rule upt_add_eq_append) simp
  then have split: "[0..<?n] = [0..<i] @ i # [Suc i..<?n]"
    using i by (simp add: upt_conv_Cons)
  have tick: "tick http s = ?c"
    by (simp add: tick_def Let_def) (subst split, simp)
  have a_len: "?n \<le> length (pool ?a)"
    using fold_fire_length [of ?s1 http "[0..<i]"] by simp
  have a_nth: "pool ?a ! i = pool s ! i"
    using fold_fire_nth_absent [of i ?s1 "[0..<i]" http] i by simp
  have a_clock: "clock ?a = clock s + 1"
    by (simp add: fold_fire_clock)
  have due: "due ?a i"
    using i a_len a_nth a_clock t d by (simp add: due_def)
  have b_pool: "pool ?b = (pool ?a)[i := (pool ?a ! i)\<lparr>finished := True\<rparr>] @ [?new]"
    using due a_nth t(1) a_clock by (simp add: fire_pool spawned_def)
  have b_nth: "pool ?b ! length (pool ?a) = ?new"
    by (simp add: b_pool nth_append)
  have b_len: "length (pool ?a) < length (pool ?b)"
    by (simp add: b_pool)
  have b_fired: "refresh_fired ?b = refresh_fired ?a + 1"
    using due a_nth t(1) by (simp add: fire_fired)
  have a_fired: "refresh_fired s \<le> refresh_fired ?a"
    using fold_fire_fired [of ?s1 http "[0..<i]"] by (simp add: refresh_fired_def)
  have c_fired: "refresh_fired ?b \<le> refresh_fired ?c"
    by (rule fold_fire_fired)
  have c_nth: "pool ?c ! length (pool ?a) = ?new"
    using fold_fire_nth_absent [of "length (pool ?a)" ?b "[Suc i..<?n]" http] b_len a_len b_nth
    by simp
  have c_len: "length (pool ?a) < length (pool ?c)"
    using b_len fold_fire_length [of ?b http "[Suc i..<?n]"] by simp
  show ?thesis
    unfolding tick using a_fired b_fired c_fired c_nth c_len by auto
qed

lemma refresh_armed_iff:
  "refresh_armed s = (\<exists>i < length (pool s). callback (pool s ! i) = CbRefreshToken
      \<and> \<not> cancelled (pool s ! i) \<and> \<not> finished (pool s ! i)
      \<and> clock s < deadline (pool s ! i) \<and> deadline (pool s ! i) \<le> clock s + 60)"
  unfolding refresh_armed_def list_ex_iff by (metis in_set_conv_nth)

lemma tick_armed: "refresh_armed s \<Longrightarrow> refresh_armed (tick http s)"
proof -
  assume "refresh_armed s"
  then obtain i where i: "i < length (pool s)"
    and t: "callback (pool s ! i) = CbRefreshToken" "\<not> cancelled (pool s ! i)"
      "\<not> finished (pool s ! i)"
    and d: "clock s < deadline (pool s ! i)" "deadline (pool s ! i) \<le> clock s + 60"
    by (auto simp: refresh_armed_iff)
  show ?thesis
  proof (cases "deadline (pool s ! i) \<le> clock s + 1")
    case True
    from tick_fires [OF i t True, of http] obtain k where
      "k < length (pool (tick http s))"
      "pool (tick http s) ! k = \<lparr>deadline = clock s + 1 + 60, callback = CbRefreshToken,
             cancelled = False, finished = False\<rparr>"
      by auto
    then show ?thesis
      unfolding refresh_armed_iff by (intro exI [of _ k]) (simp add: tick_clock)
  next
    case False
    then have "pool (tick http s) ! i = pool s ! i"
      using i by (simp add: tick_keeps)
    moreover have "i < length (pool (tick http s))"
      using i tick_length [of s http] by simp
    ultimately show ?thesis
      unfolding refresh_armed_iff using t d False
      by (intro exI [of _ i]) (simp add: tick_clock)
  qed
qed

lemma ticks_append: "ticks (hs @ hs') s = ticks hs' (ticks hs s)"
  by (induction hs arbitrary: s) simp_all

lemma ticks_fired: "refresh_fired s \<le> refresh_fired (ticks hs s)"
proof (induction hs arbitrary: s)
  case Nil
  then show ?case by simp
next
  case (Cons h hs)
  show ?case
    using Cons [of "tick h s"] tick_fired [of s h] by simp
qed

lemma ticks_armed: "refresh_armed s \<Longrightarrow> refresh_armed (ticks hs s)"
  by (induction hs arbitrary: s) (simp_all add: tick_armed)

lemma ticks_reach_deadline:
  "i < length (pool s) \<Longrightarrow> callback (pool s ! i) = CbRefreshToken \<Longrightarrow>
   \<not> cancelled (pool s ! i) \<Longrightarrow> \<not> finished (pool s ! i) \<Longrightarrow>
   clock s < deadline (pool s ! i) \<Longrightarrow> deadline (pool s ! i) \<le> clock s + int (length hs) \<Longrightarrow>
   refresh_fired s + 1 \<le> refresh_fired (ticks hs s)"
proof (induction hs arbitrary: s)
  case Nil
  then show ?case by simp
next
  case (Cons h hs)
  show ?case
  proof (cases "deadline (pool s ! i) \<le> clock s + 1")
    case True
    have "refresh_fired s + 1 \<le> refresh_fired (tick h s)"
      using tick_fires [OF Cons.prems(1-4) True, of h] by simp
    then show ?thesis
      using ticks_fired [of "tick h s" hs] by simp
  next
    case False
    have n: "pool (tick h s) ! i = pool s ! i"
      using False Cons.prems(1) by (simp add: tick_keeps)
    have l: "i < length (pool (tick h s))"
      using Cons.prems(1) tick_length [of s h] by simp
    have "refresh_fired (tick h s) + 1 \<le> refresh_fired (ticks hs (tick h s))"
      using Cons.prems False n l by (intro Cons.IH) (simp_all add: tick_clock)
    then show ?thesis
      using tick_fired [of s h] by simp
  qed
qed

lemma sixty_ticks:
  "refresh_armed s \<Longrightarrow> length hs = 60 \<Longrightarrow> refresh_fired s + 1 \<le> refresh_fired (ticks hs s)"
  unfolding refresh_armed_iff using ticks_reach_deadline [of _ s hs] by auto

lemma many_ticks:
  "refresh_armed s \<Longrightarrow> length hs = 60 * n \<Longrightarrow>
   refresh_fired s + n \<le> refresh_fired (ticks hs s)"
proof (induction n arbitrary: s hs)
  case 0
  then show ?case by simp
next
  case (Suc n)
  let ?s' = "ticks (take 60 hs) s"
  have hs: "hs = take 60 hs @ drop 60 hs" by simp
  have "refresh_fired s + 1 \<le> refresh_fired ?s'"
    using Suc.prems by (intro sixty_ticks) simp_all
  moreover have "refresh_fired ?s' + n \<le> refresh_fired (ticks (drop 60 hs) ?s')"
    using Suc.prems by (intro Suc.IH ticks_armed) simp_all
  moreover have "ticks hs s = ticks (drop 60 hs) ?s'"
    by (subst hs) (simp only: ticks_append)
  ultimately show ?case by simp
qed

text \<open>
  C10. \<open>close\<close> touches neither the timers nor the field that holds the refresh timer,
  and \<open>refresh_token\<close> starts the next refresh timer, due 60 seconds later, whatever the
  flags are and whatever becomes of the refresh itself. So with a refresh timer started
  when the session is stopped, one is started at every later moment, and in any
  \<open>60 * n\<close> seconds after the stop at least \<open>n\<close> more refresh timers run.
\<close>

theorem refresh_timer_survives_close:
  "refresh_armed s \<Longrightarrow> length hs = 60 * n \<Longrightarrow>
     pool (close s) = pool s \<and> timer_refresh (close s) = timer_refresh s
   \<and> pool (snd (refresh_token http (close s)))
       = pool s @ [\<lparr>deadline = clock s + 60, callback = CbRefreshToken,
                    cancelled = False, finished = False\<rparr>]
   \<and> refresh_armed (ticks hs (close s))
   \<and> refresh_fired s + n \<le> refresh_fired (ticks hs (close s))"
proof -
  assume a: "refresh_armed s" and l: "length hs = 60 * n"
  have c: "refresh_armed (close s)"
    using a by (simp add: refresh_armed_def close_def)
  have f: "refresh_fired (close s) = refresh_fired s"
    by (simp add: refresh_fired_def close_def)
  have "pool (snd (refresh_token http (close s)))
       = pool s @ [\<lparr>deadline = clock s + 60, callback = CbRefreshToken,
                    cancelled = False, finished = False\<rparr>]"
    using refresh_token_pool [of http "close s"] by (simp add: spawned_def close_def)
  then show ?thesis
    using many_ticks [OF c l] ticks_armed [OF c, of hs] f by (simp add: close_def)
qed

text \<open>
  A login answered with an HTTP status 200 starts the refresh timer; the session is then
  stopped, and within the next 60 seconds the timer runs.
\<close>

theorem refresh_timer_survives_close_witness:
  "refresh_armed (snd (async_auth ''u'' ''p'' False (HttpResponse 200 (Some (JObj [(''status'', JInt 401)]))) init))
   \<and> 1 \<le> refresh_fired (ticks (replicate 60 HttpRaises)
        (close (snd (async_auth ''u'' ''p'' False (HttpResponse 200 (Some (JObj [(''status'', JInt 401)]))) init))))"
proof -
  let ?s = "snd (async_auth ''u'' ''p'' False (HttpResponse 200 (Some (JObj [(''status'', JInt 401)]))) init)"
  have a: "refresh_armed ?s" by code_simp
  have f: "refresh_fired ?s = 0" by code_simp
  have l: "length (replicate 60 HttpRaises) = 60 * 1" by simp
  show ?thesis
    using a f refresh_timer_survives_close [OF a l] by simp
qed

subsection \<open>Outbound frames\<close>

lemma setitem_dicts:
  "dicts (setitem r k v s) = (dicts s)[r := AList.update k v (deref s r)]"
  by (simp add: setitem_def)

lemma deref_setitem:
  "r < length (dicts s) \<Longrightarrow> deref (setitem r k v s) r = AList.update k v (deref s r)"
  by (simp add: setitem_def deref_def)

lemma setitem_fields [simp]:
  "access_token (setitem r k v s) = access_token s"
  "session_id (setitem r k v s) = session_id s"
  "stamp_ts (setitem r k v s) = stamp_ts s"
  "msg_to_send (setitem r k v s) = msg_to_send s"
  "length (dicts (setitem r k v s)) = length (dicts s)"
  by (simp_all add: setitem_def stamp_ts_def get_ts_def)

lemma send_action_dicts: "dicts (send_action r s) = (dicts s)[r := stamped s (deref s r)]"
proof (cases "r < length (dicts s)")
  case True
  then show ?thesis
    by (simp add: send_action_def send_json_def Let_def setitem_dicts deref_setitem stamped_def)
next
  case False
  then show ?thesis
    by (simp add: send_action_def send_json_def Let_def setitem_dicts list_update_beyond)
qed

lemma send_action_queue: "msg_to_send (send_action r s) = msg_to_send s @ [r]"
  by (simp add: send_action_def send_json_def Let_def)


lemma send_ping_dicts:
  "dicts (send_ping s)
     = dicts s @ [[(''message'', JStr ''Ping Connection Reset''), (''token'', access_token s)]]"
  by (simp add: send_ping_def new_dict_def send_json_def start_timer_ping_def new_timer_def)

lemma send_ping_queue: "msg_to_send (send_ping s) = msg_to_send s @ [length (dicts s)]"
  by (simp add: send_ping_def new_dict_def send_json_def start_timer_ping_def new_timer_def)












































subsection \<open>What the debug log shows\<close>

text \<open>
  C9 (the claim fails). With the logger at DEBUG, an inbound event that carries the access
  token below its top level is logged with the token in it: only the top-level fields
  \<open>accessToken\<close> and \<open>refreshToken\<close> of the logged copy are overwritten.
\<close>

theorem nested_token_is_logged:
  "map (\<lambda>l. contains l ''SECRET'')
     (log_lines (snd (snd (connected_loop
        [\<lparr>frame = RecvData (Loads (JObj [(''message_type'', JStr ''StateUpdate''),
                                         (''data'', JObj [(''accessToken'', JStr ''SECRET'')])])),
          sends = []\<rparr>]
        None (init\<lparr>debug_enabled := True, access_token := JStr ''SECRET''\<rparr>)))))
   = [True]"
  by code_simp

lemma update_twice: "AList.update k c (AList.update k w al) = AList.update k c al"
  by (induction al) auto

lemma update_masks_one:
  "k \<noteq> k1 \<Longrightarrow>
   AList.update k c (AList.update k1 v1 (AList.update k w al))
     = AList.update k c (AList.update k1 v1 (AList.update k w' al))"
  by (induction al) (auto simp: update_twice)

lemma update_masks_two:
  "k \<noteq> k1 \<Longrightarrow> k \<noteq> k2 \<Longrightarrow>
   AList.update k c (AList.update k2 v2 (AList.update k1 v1 (AList.update k w al)))
     = AList.update k c (AList.update k2 v2 (AList.update k1 v1 (AList.update k w' al)))"
proof (induction al)
  case Nil
  then show ?case by auto
next
  case (Cons p ps)
  then show ?case
    using update_masks_one [of k k1 c v1 w ps w'] update_masks_one [of k k2 c v2 w ps w']
    by (auto simp: update_twice)
qed

lemma masked_stamped:
  "masked (stamped s d)
     = masked (AList.update ''ts'' (JInt (stamp_ts s)) (AList.update ''mid'' (session_id s) (masked d)))"
  unfolding masked_def stamped_def
  using update_masks_two [of "''token''" "''mid''" "''ts''" "JStr ''*****''" "JInt (stamp_ts s)"
      "session_id s" "access_token s" d "JStr ''*****''"]
  by (simp add: update_twice)

lemma log_lines_emit:
  "log_lines (emit e s) = log_lines s @ (case e of LogDebug l \<Rightarrow> [l] | _ \<Rightarrow> [])"
  by (simp add: log_lines_def emit_def)

lemma emit_fields:
  "debug_enabled (emit e s) = debug_enabled s"
  "session_id (emit e s) = session_id s"
  "clock (emit e s) = clock s"
  "utc_offset (emit e s) = utc_offset s"
  "last_ts_msg (emit e s) = last_ts_msg s"
  by (simp_all add: emit_def)

lemma log_lines_queue: "log_lines (s\<lparr>msg_to_send := q\<rparr>) = log_lines s"
  by (simp add: log_lines_def)

lemma log_lines_log_send:
  "log_lines (log_send m s)
     = log_lines s @ (if debug_enabled s then [''Send Json : '' @ dumps (JObj (masked m))] else [])"
  by (simp add: log_send_def log_lines_emit masked_def)

lemma same_but_tokens_length: "same_but_tokens a b \<Longrightarrow> length (dicts a) = length (dicts b)"
  unfolding same_but_tokens_def by (metis length_map)

lemma same_but_tokens_deref: "same_but_tokens a b \<Longrightarrow> masked (deref a r) = masked (deref b r)"
proof -
  assume ab: "same_but_tokens a b"
  then have m: "map masked (dicts a) = map masked (dicts b)"
    by (simp add: same_but_tokens_def)
  have l: "length (dicts a) = length (dicts b)"
    using ab by (rule same_but_tokens_length)
  show ?thesis
  proof (cases "r < length (dicts a)")
    case True
    then have "map masked (dicts a) ! r = masked (dicts a ! r)"
      and "map masked (dicts b) ! r = masked (dicts b ! r)"
      using l by simp_all
    then show ?thesis using m True l by (simp add: deref_def)
  next
    case False
    then show ?thesis using l by (simp add: deref_def)
  qed
qed

lemma same_but_tokens_stamp: "same_but_tokens a b \<Longrightarrow> stamp_ts a = stamp_ts b"
  by (simp add: same_but_tokens_def stamp_ts_def get_ts_def)

lemma send_action_rest:
  "debug_enabled (send_action r s) = debug_enabled s"
  "session_id (send_action r s) = session_id s"
  "clock (send_action r s) = clock s"
  "utc_offset (send_action r s) = utc_offset s"
  "last_ts_msg (send_action r s) = stamp_ts s"
  "log_lines (send_action r s) = log_lines s"
  by (simp_all add: send_action_def send_json_def Let_def setitem_def log_lines_def
      stamp_ts_def get_ts_def)

lemma same_but_tokens_send_action:
  "same_but_tokens a b \<Longrightarrow> same_but_tokens (send_action r a) (send_action r b)"
proof -
  assume ab: "same_but_tokens a b"
  have st: "stamp_ts a = stamp_ts b"
    using ab by (rule same_but_tokens_stamp)
  have "masked (stamped a (deref a r)) = masked (stamped b (deref b r))"
    using ab st same_but_tokens_deref [OF ab, of r]
    by (simp add: masked_stamped same_but_tokens_def)
  then have "map masked (dicts (send_action r a)) = map masked (dicts (send_action r b))"
    using ab by (simp add: send_action_dicts map_update same_but_tokens_def)
  then show ?thesis
    using ab st by (simp add: same_but_tokens_def send_action_queue send_action_rest)
qed

lemma send_ping_rest:
  "debug_enabled (send_ping s) = debug_enabled s"
  "session_id (send_ping s) = session_id s"
  "clock (send_ping s) = clock s"
  "utc_offset (send_ping s) = utc_offset s"
  "last_ts_msg (send_ping s) = last_ts_msg s"
  "log_lines (send_ping s) = log_lines s"
  by (simp_all add: send_ping_def new_dict_def send_json_def start_timer_ping_def new_timer_def
      log_lines_def)

lemma same_but_tokens_send_ping:
  "same_but_tokens a b \<Longrightarrow> same_but_tokens (send_ping a) (send_ping b)"
proof -
  assume ab: "same_but_tokens a b"
  have "length (dicts a) = length (dicts b)"
    using ab by (rule same_but_tokens_length)
  then show ?thesis
    using ab
    by (simp add: same_but_tokens_def send_ping_dicts send_ping_queue send_ping_rest masked_def)
qed

lemma same_but_tokens_drain:
  "same_but_tokens a b \<Longrightarrow> msg_to_send a = q \<Longrightarrow> same_but_tokens (drain oks a) (drain oks b)"
proof (induction q arbitrary: a b oks)
  case Nil
  then show ?case by (simp add: drain_Nil same_but_tokens_def)
next
  case (Cons r rest)
  let ?a0 = "log_send (deref a r) (a\<lparr>msg_to_send := rest\<rparr>)"
  let ?b0 = "log_send (deref b r) (b\<lparr>msg_to_send := rest\<rparr>)"
  have qa: "msg_to_send a = r # rest" and qb: "msg_to_send b = r # rest"
    using Cons.prems by (simp_all add: same_but_tokens_def)
  have m: "masked (deref a r) = masked (deref b r)"
    using Cons.prems(1) by (rule same_but_tokens_deref)
  have l: "log_lines ?a0 = log_lines ?b0"
    using Cons.prems(1) m by (simp add: log_lines_log_send same_but_tokens_def log_lines_queue)
  have f: "debug_enabled ?a0 = debug_enabled ?b0" "session_id ?a0 = session_id ?b0"
      "clock ?a0 = clock ?b0" "utc_offset ?a0 = utc_offset ?b0"
      "last_ts_msg ?a0 = last_ts_msg ?b0" "map masked (dicts ?a0) = map masked (dicts ?b0)"
      "msg_to_send ?a0 = rest" "msg_to_send ?b0 = rest"
    using Cons.prems(1) by (simp_all add: same_but_tokens_def log_send_def emit_def)
  show ?case
  proof (cases "case oks of [] \<Rightarrow> True | ok # _ \<Rightarrow> ok")
    case True
    have "same_but_tokens (emit (WsSend (deref a r)) ?a0) (emit (WsSend (deref b r)) ?b0)"
      using l f by (simp add: same_but_tokens_def log_lines_emit emit_fields)
    moreover have "msg_to_send (emit (WsSend (deref a r)) ?a0) = rest"
      by simp
    ultimately have "same_but_tokens (drain (tl oks) (emit (WsSend (deref a r)) ?a0))
        (drain (tl oks) (emit (WsSend (deref b r)) ?b0))"
      by (rule Cons.IH)
    then show ?thesis
      using qa qb True by (simp add: drain_ok)
  next
    case False
    then obtain oks' where oks: "oks = False # oks'"
      by (cases oks) auto
    have "same_but_tokens ((emit LogError ?a0)\<lparr>msg_to_send := r # rest\<rparr>)
        ((emit LogError ?b0)\<lparr>msg_to_send := r # rest\<rparr>)"
      using l f by (simp add: same_but_tokens_def log_lines_queue log_lines_emit emit_fields)
    then show ?thesis
      using qa qb oks by (simp add: drain_fail)
  qed
qed

lemma same_but_tokens_load_frame:
  "same_but_tokens a b \<Longrightarrow>
   same_but_tokens
     (snd (snd (load_frame
        (Loads (JObj (AList.update ''accessToken'' x (AList.update ''refreshToken'' y kvs)))) js a)))
     (snd (snd (load_frame
        (Loads (JObj (AList.update ''accessToken'' x' (AList.update ''refreshToken'' y' kvs)))) js' b)))"
proof -
  assume ab: "same_but_tokens a b"
  have "AList.update ''refreshToken'' (JStr ''*****'') (AList.update ''accessToken'' (JStr ''*****'')
        (AList.update ''accessToken'' x (AList.update ''refreshToken'' y kvs)))
      = AList.update ''refreshToken'' (JStr ''*****'') (AList.update ''accessToken'' (JStr ''*****'')
        (AList.update ''accessToken'' x' (AList.update ''refreshToken'' y' kvs)))"
    using update_masks_one [of "''refreshToken''" "''accessToken''" "JStr ''*****''" "JStr ''*****''" y kvs y']
    by (simp add: update_twice)
  then show ?thesis
    using ab by (simp add: load_frame_def Let_def same_but_tokens_def log_lines_def emit_def)
qed

text \<open>
  C9 (amended). The debug line of an outbound frame is written from a copy whose top-level
  \<open>token\<close> field is overwritten, and the one of an inbound event from a copy whose top-level
  \<open>accessToken\<close> and \<open>refreshToken\<close> fields are overwritten. Two sessions that differ only in
  their access token, their refresh token and the token fields of their dicts stay so, and
  write the same debug lines, when a command is stamped, a keepalive is queued, a send
  pass runs, and an inbound event is logged that differs between them only in the values
  of its top-level \<open>accessToken\<close> and \<open>refreshToken\<close> fields.
\<close>

theorem log_masks_top_level_tokens:
  "same_but_tokens a b \<Longrightarrow>
     same_but_tokens (send_action r a) (send_action r b)
   \<and> same_but_tokens (send_ping a) (send_ping b)
   \<and> same_but_tokens (drain oks a) (drain oks b)
   \<and> same_but_tokens
       (snd (snd (load_frame
          (Loads (JObj (AList.update ''accessToken'' x (AList.update ''refreshToken'' y kvs)))) js a)))
       (snd (snd (load_frame
          (Loads (JObj (AList.update ''accessToken'' x' (AList.update ''refreshToken'' y' kvs)))) js' b)))
   \<and> log_lines (drain oks (send_action r a)) = log_lines (drain oks (send_action r b))
   \<and> log_lines (drain oks (send_ping a)) = log_lines (drain oks (send_ping b))"
proof -
  assume ab: "same_but_tokens a b"
  have 1: "same_but_tokens (send_action r a) (send_action r b)"
    using ab by (rule same_but_tokens_send_action)
  have 2: "same_but_tokens (send_ping a) (send_ping b)"
    using ab by (rule same_but_tokens_send_ping)
  have 3: "same_but_tokens (drain oks a') (drain oks b')" if "same_but_tokens a' b'" for a' b'
    using that by (rule same_but_tokens_drain) simp
  have 4: "log_lines a' = log_lines b'" if "same_but_tokens a' b'" for a' b'
    using that by (simp add: same_but_tokens_def)
  show ?thesis
    using ab 1 2 3 [OF ab] 4 [OF 3 [OF 1]] 4 [OF 3 [OF 2]] same_but_tokens_load_frame [OF ab]
    by simp
qed

theorem log_masks_top_level_tokens_witness:
  "same_but_tokens
     (init\<lparr>debug_enabled := True, access_token := JStr ''SECRET1'', dicts := [[(''cmd'', JStr ''on'')]]\<rparr>)
     (init\<lparr>debug_enabled := True, access_token := JStr ''SECRET2'', dicts := [[(''cmd'', JStr ''on'')]]\<rparr>)
   \<and> log_lines (drain [] (send_action 0
       (init\<lparr>debug_enabled := True, access_token := JStr ''SECRET1'', dicts := [[(''cmd'', JStr ''on'')]]\<rparr>)))
     = log_lines (drain [] (send_action 0
       (init\<lparr>debug_enabled := True, access_token := JStr ''SECRET2'', dicts := [[(''cmd'', JStr ''on'')]]\<rparr>)))"
proof -
  have h: "same_but_tokens
     (init\<lparr>debug_enabled := True, access_token := JStr ''SECRET1'', dicts := [[(''cmd'', JStr ''on'')]]\<rparr>)
     (init\<lparr>debug_enabled := True, access_token := JStr ''SECRET2'', dicts := [[(''cmd'', JStr ''on'')]]\<rparr>)"
    by (simp add: same_but_tokens_def init_def log_lines_def)
  show ?thesis
    using h log_masks_top_level_tokens [OF h, of 0 "[]"] by simp
qed

end
